theory Spec2Isabelle
  imports Main "HOL-Library.List_Lexorder" "HOL-Library.Char_ord"
begin

section \<open>The osquery plugin registry (include/osquery/registry.h)\<close>

text \<open>
  The header defines three classes: \<open>Plugin\<close> (the base class of every registry item, with
  four virtual methods), \<open>RegistryCore\<close> (one registry: the items of one plugin type, by
  name) and \<open>RegistryFactory\<close> (the process-wide holder of all registries, by name). This
  theory embeds them as functions on explicit state.

  \<^item> A \<open>std::map\<close> is an association list in ascending key order without duplicate keys,
    which is the order in which the C++ container iterates. Strings compare as
    \<open>std::string\<close> does: lexicographically, by unsigned character code.
  \<^item> A member function that mutates its object returns the object's new value.
  \<^item> \<open>std::map::at\<close> throws \<open>std::out_of_range\<close> on a missing key; a function that
    can throw returns an \<open>outcome\<close>.
  \<^item> Every call of a virtual method of a plugin is recorded, in program order, in a list of
    invocations that the calling function returns next to its result.
\<close>

subsection \<open>Faults\<close>

datatype fault = out_of_range | null_dereference

text \<open>
  \<open>Raised out_of_range\<close> is the exception of \<open>std::map::at\<close>, which leaves the map as
  it was. \<open>Raised null_dereference\<close> stands for the undefined behaviour of calling a
  member through an empty \<open>std::shared_ptr\<close>.
\<close>

datatype 'a outcome = Returned 'a | Raised fault

subsection \<open>std::map\<close>

definition map_count :: "('k \<times> 'v) list \<Rightarrow> 'k \<Rightarrow> nat" where
  "map_count m k = (case map_of m k of None \<Rightarrow> 0 | Some v \<Rightarrow> 1)"

definition map_at :: "('k \<times> 'v) list \<Rightarrow> 'k \<Rightarrow> 'v outcome" where
  "map_at m k = (case map_of m k of None \<Rightarrow> Raised out_of_range | Some v \<Rightarrow> Returned v)"

text \<open>\<open>m[k] = v\<close>: replaces the value of an existing key, inserts a new key in its place.\<close>

fun map_assign :: "('k::linorder \<times> 'v) list \<Rightarrow> 'k \<Rightarrow> 'v \<Rightarrow> ('k \<times> 'v) list" where
  "map_assign [] k v = [(k, v)]"
| "map_assign ((k', v') # m) k v =
     (if k < k' then (k, v) # (k', v') # m
      else if k = k' then (k, v) # m
      else (k', v') # map_assign m k v)"

definition map_erase :: "('k \<times> 'v) list \<Rightarrow> 'k \<Rightarrow> ('k \<times> 'v) list" where
  "map_erase m k = filter (\<lambda>e. fst e \<noteq> k) m"

definition map_size :: "('k \<times> 'v) list \<Rightarrow> nat" where
  "map_size m = length m"

text \<open>
  A write through the reference that a lookup of \<open>k\<close> finds: the entry found takes the
  value \<open>v\<close>, the map keeps its keys. The values of the maps below are shared pointers, and
  a member function called through one changes the object in place.
\<close>

fun store_through :: "('k \<times> 'v) list \<Rightarrow> 'k \<Rightarrow> 'v \<Rightarrow> ('k \<times> 'v) list" where
  "store_through [] k v = []"
| "store_through ((k', v') # m) k v =
     (if k' = k then (k', v) # m else (k', v') # store_through m k v)"

text \<open>The invariant of a \<open>std::map\<close>: keys strictly ascending.\<close>

definition map_ok :: "('k::linorder \<times> 'v) list \<Rightarrow> bool" where
  "map_ok m = sorted_wrt (<) (map fst m)"

subsection \<open>Status and the plugin data types\<close>

text \<open>
  Modelled from the spec: \<open>osquery/status.h\<close> is not among the sources. The spec describes
  the result of an operation as a status code and a message; the header builds it as
  \<open>Status(0, "OK")\<close> on success and \<open>Status(1, message)\<close> on failure, and the default
  \<open>Plugin::setUp\<close>, a success, returns \<open>Status(0, "Not used")\<close>. So \<open>ok\<close> is code zero.
\<close>

datatype Status = Status (getCode: int) (getMessage: string)

definition ok :: "Status \<Rightarrow> bool" where
  "ok s = (getCode s = 0)"

type_synonym RouteInfo = "(string \<times> string) list"
type_synonym RegistryRoutes = "(string \<times> RouteInfo) list"
type_synonym RegistryBroadcast = "(string \<times> RegistryRoutes) list"
type_synonym PluginRequest = "(string \<times> string) list"
type_synonym PluginResponse = "PluginRequest list"

subsection \<open>Plugin\<close>

text \<open>
  A plugin object: the member \<open>name_\<close> of the base class, the data members of the
  derived class (\<open>self\<close>, of any type \<open>'s\<close>) and its four virtual methods. (A member
  \<open>x_\<close> of the source is the field \<open>m_x\<close> here: a field name cannot end in an
  underscore.) A virtual method reads and writes the object's own members and returns;
  \<open>call\<close> also receives the response by reference and returns what it leaves there.
  What a derived class could do beyond that, throwing or calling back into the registry
  that holds it, is outside the model.
\<close>

record 's Plugin =
  m_name :: string
  self :: 's
  v_setUp :: "'s \<Rightarrow> Status \<times> 's"
  v_tearDown :: "'s \<Rightarrow> 's"
  v_routeInfo :: "'s \<Rightarrow> RouteInfo \<times> 's"
  v_call :: "'s \<Rightarrow> PluginRequest \<Rightarrow> PluginResponse \<Rightarrow> (Status \<times> PluginResponse) \<times> 's"

text \<open>The base class: its constructor and the default bodies of the virtual methods.\<close>

definition Plugin :: "'s \<Rightarrow> 's Plugin" where
  "Plugin s =
     \<lparr> m_name = ''unnamed'',
       self = s,
       v_setUp = (\<lambda>s. (Status 0 ''Not used'', s)),
       v_tearDown = (\<lambda>s. s),
       v_routeInfo = (\<lambda>s. ([], s)),
       v_call = (\<lambda>s request response. ((Status 1 ''Error'', response), s)) \<rparr>"

definition Plugin_setName :: "'s Plugin \<Rightarrow> string \<Rightarrow> 's Plugin" where
  "Plugin_setName p name = p\<lparr>m_name := name\<rparr>"

text \<open>Virtual dispatch: the method stored in the object runs on the object's members.\<close>

definition Plugin_setUp :: "'s Plugin \<Rightarrow> Status \<times> 's Plugin" where
  "Plugin_setUp p = (case v_setUp p (self p) of (st, s') \<Rightarrow> (st, p\<lparr>self := s'\<rparr>))"

definition Plugin_tearDown :: "'s Plugin \<Rightarrow> 's Plugin" where
  "Plugin_tearDown p = p\<lparr>self := v_tearDown p (self p)\<rparr>"

definition Plugin_routeInfo :: "'s Plugin \<Rightarrow> RouteInfo \<times> 's Plugin" where
  "Plugin_routeInfo p = (case v_routeInfo p (self p) of (info, s') \<Rightarrow> (info, p\<lparr>self := s'\<rparr>))"

definition Plugin_call ::
  "'s Plugin \<Rightarrow> PluginRequest \<Rightarrow> PluginResponse \<Rightarrow> (Status \<times> PluginResponse) \<times> 's Plugin" where
  "Plugin_call p request response =
     (case v_call p (self p) request response of (r, s') \<Rightarrow> (r, p\<lparr>self := s'\<rparr>))"

text \<open>
  An invocation: the name under which the item is registered and the virtual method
  called. After \<open>setUp\<close>, \<open>routeInfo\<close> and \<open>call\<close> the object stays in the registry,
  where what the method did to it can be read. \<open>tearDown\<close> is called on an object that
  the registry then lets go of, so its invocation carries the object as \<open>tearDown\<close>
  left it: what the other holders of the shared pointer see.
\<close>

datatype 's vmethod = SetUp | TearDown "'s Plugin" | RouteInfo | Call

type_synonym 's invocation = "string \<times> 's vmethod"

subsection \<open>RegistryCore\<close>

record 's RegistryCore =
  m_registry_name :: string
  m_items :: "(string \<times> 's Plugin) list"
  m_auto_setup :: bool

definition RegistryCore :: "bool \<Rightarrow> 's RegistryCore" where
  "RegistryCore auto_setup = \<lparr> m_registry_name = [], m_items = [], m_auto_setup = auto_setup \<rparr>"

definition RegistryCore_setName :: "'s RegistryCore \<Rightarrow> string \<Rightarrow> 's RegistryCore" where
  "RegistryCore_setName c name = c\<lparr>m_registry_name := name\<rparr>"

text \<open>
  \<open>add<Item>(item_name)\<close>. The template argument is the class to construct; the model
  takes the object that \<open>new Item()\<close> yields.
\<close>

definition RegistryCore_add ::
  "'s RegistryCore \<Rightarrow> 's Plugin \<Rightarrow> string \<Rightarrow> Status \<times> 's RegistryCore" where
  "RegistryCore_add c new_Item item_name =
     (if map_count (m_items c) item_name > 0
      then (Status 1 (''Duplicate registry item exists: '' @ item_name), c)
      else let item = Plugin_setName new_Item item_name
           in (Status 0 ''OK'', c\<lparr>m_items := map_assign (m_items c) item_name item\<rparr>))"

definition RegistryCore_get :: "'s RegistryCore \<Rightarrow> string \<Rightarrow> 's Plugin outcome" where
  "RegistryCore_get c item_name = map_at (m_items c) item_name"

text \<open>
  In \<open>remove\<close> and \<open>call\<close> the test \<open>items_.count(item_name) > 0\<close> guards
  \<open>items_[item_name]\<close>; the lookup finds an entry exactly when the count is positive.
\<close>

definition RegistryCore_remove ::
  "'s RegistryCore \<Rightarrow> string \<Rightarrow> 's RegistryCore \<times> 's invocation list" where
  "RegistryCore_remove c item_name =
     (case map_of (m_items c) item_name of
        Some item \<Rightarrow>
          (let item' = Plugin_tearDown item;
               torn_down = store_through (m_items c) item_name item'
           in (c\<lparr>m_items := map_erase torn_down item_name\<rparr>,
               [(item_name, TearDown item')]))
      | None \<Rightarrow> (c, []))"

fun getRoutes_loop ::
  "(string \<times> 's Plugin) list \<Rightarrow> RegistryRoutes \<Rightarrow>
     (string \<times> 's Plugin) list \<times> RegistryRoutes \<times> 's invocation list" where
  "getRoutes_loop [] route_table = ([], route_table, [])"
| "getRoutes_loop (item # rest) route_table =
     (case Plugin_routeInfo (snd item) of (info, p') \<Rightarrow>
        (case getRoutes_loop rest (map_assign route_table (fst item) info) of
           (rest', route_table', calls) \<Rightarrow>
             ((fst item, p') # rest', route_table', (fst item, RouteInfo) # calls)))"

definition RegistryCore_getRoutes ::
  "'s RegistryCore \<Rightarrow> RegistryRoutes \<times> 's RegistryCore \<times> 's invocation list" where
  "RegistryCore_getRoutes c =
     (case getRoutes_loop (m_items c) [] of
        (items', route_table, calls) \<Rightarrow> (route_table, c\<lparr>m_items := items'\<rparr>, calls))"

definition RegistryCore_call ::
  "'s RegistryCore \<Rightarrow> string \<Rightarrow> PluginRequest \<Rightarrow> PluginResponse \<Rightarrow>
     (Status \<times> PluginResponse) \<times> 's RegistryCore \<times> 's invocation list" where
  "RegistryCore_call c item_name request response =
     (case map_of (m_items c) item_name of
        Some item \<Rightarrow>
          (case Plugin_call item request response of (r, item') \<Rightarrow>
             (r, c\<lparr>m_items := store_through (m_items c) item_name item'\<rparr>, [(item_name, Call)]))
      | None \<Rightarrow>
          ((Status 1 (''Cannot call registry item: '' @ item_name), response), c, []))"

definition RegistryCore_all :: "'s RegistryCore \<Rightarrow> (string \<times> 's Plugin) list" where
  "RegistryCore_all c = m_items c"

text \<open>The first loop of \<open>setUp\<close>: every item's \<open>setUp\<close>, the failed names collected in order.\<close>

fun setUp_loop ::
  "(string \<times> 's Plugin) list \<Rightarrow> string list \<Rightarrow>
     (string \<times> 's Plugin) list \<times> string list \<times> 's invocation list" where
  "setUp_loop [] failed = ([], failed, [])"
| "setUp_loop (item # rest) failed =
     (case Plugin_setUp (snd item) of (st, p') \<Rightarrow>
        (case setUp_loop rest (if \<not> ok st then failed @ [fst item] else failed) of
           (rest', failed', calls) \<Rightarrow>
             ((fst item, p') # rest', failed', (fst item, SetUp) # calls)))"

text \<open>The second loop: \<open>remove\<close> of each failed name.\<close>

fun remove_loop ::
  "'s RegistryCore \<Rightarrow> string list \<Rightarrow> 's RegistryCore \<times> 's invocation list" where
  "remove_loop c [] = (c, [])"
| "remove_loop c (failed_item # rest) =
     (case RegistryCore_remove c failed_item of (c', calls) \<Rightarrow>
        (case remove_loop c' rest of (c'', calls') \<Rightarrow> (c'', calls @ calls')))"

definition RegistryCore_setUp :: "'s RegistryCore \<Rightarrow> 's RegistryCore \<times> 's invocation list" where
  "RegistryCore_setUp c =
     (if \<not> m_auto_setup c then (c, [])
      else (case setUp_loop (m_items c) [] of
              (items', failed, calls) \<Rightarrow>
                (case remove_loop (c\<lparr>m_items := items'\<rparr>) failed of
                   (c', calls') \<Rightarrow> (c', calls @ calls'))))"

definition RegistryCore_exists :: "'s RegistryCore \<Rightarrow> string \<Rightarrow> bool" where
  "RegistryCore_exists c item_name = (map_count (m_items c) item_name > 0)"

definition RegistryCore_names :: "'s RegistryCore \<Rightarrow> string list" where
  "RegistryCore_names c = map fst (m_items c)"

definition RegistryCore_count :: "'s RegistryCore \<Rightarrow> nat" where
  "RegistryCore_count c = map_size (m_items c)"

subsection \<open>RegistryFactory\<close>

text \<open>
  The single instance (\<open>instance()\<close>) is passed explicitly. \<open>registries_\<close> is a public map
  of shared pointers; \<open>None\<close> is the empty pointer.
\<close>

record 's RegistryFactory =
  m_registries :: "(string \<times> 's RegistryCore option) list"

definition RegistryFactory :: "'s RegistryFactory" where
  "RegistryFactory = \<lparr> m_registries = [] \<rparr>"

definition RegistryFactory_create ::
  "'s RegistryFactory \<Rightarrow> string \<Rightarrow> bool \<Rightarrow> int \<times> 's RegistryFactory" where
  "RegistryFactory_create d registry_name auto_setup =
     (if map_count (m_registries d) registry_name > 0 then (0, d)
      else let registry = RegistryCore_setName (RegistryCore auto_setup) registry_name
           in (0, d\<lparr>m_registries := map_assign (m_registries d) registry_name (Some registry)\<rparr>))"

definition RegistryFactory_registry ::
  "'s RegistryFactory \<Rightarrow> string \<Rightarrow> 's RegistryCore option outcome" where
  "RegistryFactory_registry d registry_name = map_at (m_registries d) registry_name"

definition RegistryFactory_add ::
  "'s RegistryFactory \<Rightarrow> 's Plugin \<Rightarrow> string \<Rightarrow> string \<Rightarrow>
     (Status \<times> 's RegistryFactory) outcome" where
  "RegistryFactory_add d new_Item registry_name item_name =
     (case RegistryFactory_registry d registry_name of
        Raised f \<Rightarrow> Raised f
      | Returned None \<Rightarrow> Raised null_dereference
      | Returned (Some registry) \<Rightarrow>
          (case RegistryCore_add registry new_Item item_name of (st, registry') \<Rightarrow>
             Returned (st, d\<lparr>m_registries := store_through (m_registries d) registry_name (Some registry')\<rparr>)))"

fun getBroadcast_loop ::
  "(string \<times> 's RegistryCore option) list \<Rightarrow> RegistryBroadcast \<Rightarrow>
     ((string \<times> 's RegistryCore option) list \<times> RegistryBroadcast \<times> 's invocation list) outcome" where
  "getBroadcast_loop [] broadcast = Returned ([], broadcast, [])"
| "getBroadcast_loop (registry # rest) broadcast =
     (case snd registry of
        None \<Rightarrow> Raised null_dereference
      | Some c \<Rightarrow>
          (case RegistryCore_getRoutes c of (routes, c', calls) \<Rightarrow>
             (case getBroadcast_loop rest (map_assign broadcast (fst registry) routes) of
                Raised f \<Rightarrow> Raised f
              | Returned (rest', broadcast', calls') \<Rightarrow>
                  Returned ((fst registry, Some c') # rest', broadcast', calls @ calls'))))"

definition RegistryFactory_getBroadcast ::
  "'s RegistryFactory \<Rightarrow> (RegistryBroadcast \<times> 's RegistryFactory \<times> 's invocation list) outcome" where
  "RegistryFactory_getBroadcast d =
     (case getBroadcast_loop (m_registries d) [] of
        Raised f \<Rightarrow> Raised f
      | Returned (registries', broadcast, calls) \<Rightarrow>
          Returned (broadcast, d\<lparr>m_registries := registries'\<rparr>, calls))"

text \<open>The four-argument \<open>call\<close>; \<open>response\<close> is the caller's vector, passed by reference.\<close>

definition RegistryFactory_call ::
  "'s RegistryFactory \<Rightarrow> string \<Rightarrow> string \<Rightarrow> PluginRequest \<Rightarrow> PluginResponse \<Rightarrow>
     ((Status \<times> PluginResponse) \<times> 's RegistryFactory \<times> 's invocation list) outcome" where
  "RegistryFactory_call d registry_name item_name request response =
     (case map_of (m_registries d) registry_name of
        Some None \<Rightarrow> Raised null_dereference
      | Some (Some registry) \<Rightarrow>
          (case RegistryCore_call registry item_name request response of (r, registry', calls) \<Rightarrow>
             Returned (r, d\<lparr>m_registries := store_through (m_registries d) registry_name (Some registry')\<rparr>,
                       calls))
      | None \<Rightarrow>
          Returned ((Status 1 (''Cannot call '' @ registry_name @ '':'' @ item_name), response),
                    d, []))"

text \<open>The three-argument \<open>call\<close>: a local response, dropped on return.\<close>

definition RegistryFactory_call3 ::
  "'s RegistryFactory \<Rightarrow> string \<Rightarrow> string \<Rightarrow> PluginRequest \<Rightarrow>
     (Status \<times> 's RegistryFactory \<times> 's invocation list) outcome" where
  "RegistryFactory_call3 d registry_name item_name request =
     (case RegistryFactory_call d registry_name item_name request [] of
        Raised f \<Rightarrow> Raised f
      | Returned (r, d', calls) \<Rightarrow> Returned (fst r, d', calls))"

fun RegistryFactory_setUp_loop ::
  "(string \<times> 's RegistryCore option) list \<Rightarrow>
     ((string \<times> 's RegistryCore option) list \<times> 's invocation list) outcome" where
  "RegistryFactory_setUp_loop [] = Returned ([], [])"
| "RegistryFactory_setUp_loop (registry # rest) =
     (case snd registry of
        None \<Rightarrow> Raised null_dereference
      | Some c \<Rightarrow>
          (case RegistryCore_setUp c of (c', calls) \<Rightarrow>
             (case RegistryFactory_setUp_loop rest of
                Raised f \<Rightarrow> Raised f
              | Returned (rest', calls') \<Rightarrow>
                  Returned ((fst registry, Some c') # rest', calls @ calls'))))"

definition RegistryFactory_setUp ::
  "'s RegistryFactory \<Rightarrow> ('s RegistryFactory \<times> 's invocation list) outcome" where
  "RegistryFactory_setUp d =
     (case RegistryFactory_setUp_loop (m_registries d) of
        Raised f \<Rightarrow> Raised f
      | Returned (registries', calls) \<Rightarrow> Returned (d\<lparr>m_registries := registries'\<rparr>, calls))"

definition RegistryFactory_exists :: "'s RegistryFactory \<Rightarrow> string \<Rightarrow> string \<Rightarrow> bool outcome" where
  "RegistryFactory_exists d registry_name item_name =
     (if map_count (m_registries d) registry_name = 0 then Returned False
      else (case RegistryFactory_registry d registry_name of
              Raised f \<Rightarrow> Raised f
            | Returned None \<Rightarrow> Raised null_dereference
            | Returned (Some registry) \<Rightarrow> Returned (RegistryCore_exists registry item_name)))"

text \<open>
  \<open>names(registry_name)\<close>: the guard compares the pointer that \<open>at\<close> returns with the
  empty pointer.
\<close>

definition RegistryFactory_names :: "'s RegistryFactory \<Rightarrow> string \<Rightarrow> string list outcome" where
  "RegistryFactory_names d registry_name =
     (case map_at (m_registries d) registry_name of
        Raised f \<Rightarrow> Raised f
      | Returned h \<Rightarrow>
          (if h = None then Returned []
           else (case RegistryFactory_registry d registry_name of
                   Raised f \<Rightarrow> Raised f
                 | Returned None \<Rightarrow> Raised null_dereference
                 | Returned (Some registry) \<Rightarrow> Returned (RegistryCore_names registry))))"

definition RegistryFactory_count :: "'s RegistryFactory \<Rightarrow> nat" where
  "RegistryFactory_count d = map_size (m_registries d)"

text \<open>
  What the functions above keep true of a directory: \<open>registries_\<close> and every
  \<open>items_\<close> are maps with strictly ascending keys, and no stored pointer is empty.
\<close>

definition registries_ok :: "'s RegistryFactory \<Rightarrow> bool" where
  "registries_ok d =
     (map_ok (m_registries d) \<and>
      list_all (\<lambda>e. case snd e of None \<Rightarrow> False | Some c \<Rightarrow> map_ok (m_items c))
        (m_registries d))"

subsection \<open>Two items and a registry to run the functions on\<close>

text \<open>
  Two derived classes with a counter as their only member. \<open>hello_item\<close> overrides
  \<open>setUp\<close> (succeeds and counts), \<open>routeInfo\<close> and \<open>call\<close> (appends one row that
  echoes the request's \<open>name\<close>); \<open>broken_item\<close> overrides \<open>setUp\<close> to fail and
  \<open>tearDown\<close> to count. \<open>greeter\<close> is an auto-setup registry that holds both.
\<close>

definition hello_item :: "nat Plugin" where
  "hello_item =
     (Plugin 0)\<lparr>
       v_setUp := (\<lambda>s. (Status 0 ''OK'', Suc s)),
       v_routeInfo := (\<lambda>s. ([(''kind'', ''greeting'')], s)),
       v_call := (\<lambda>s request response.
          ((Status 0 ''OK'',
            response @ [[(''msg'', case map_of request ''name'' of Some n \<Rightarrow> n | None \<Rightarrow> [])]]),
           s)) \<rparr>"

definition broken_item :: "nat Plugin" where
  "broken_item =
     (Plugin 0)\<lparr>
       v_setUp := (\<lambda>s. (Status 1 ''setup failed'', s)),
       v_tearDown := (\<lambda>s. Suc s) \<rparr>"

definition greeter :: "nat RegistryCore" where
  "greeter =
     \<lparr> m_registry_name = ''greeter'',
       m_items = [(''broken'', Plugin_setName broken_item ''broken''),
                  (''hello'', Plugin_setName hello_item ''hello'')],
       m_auto_setup = True \<rparr>"

definition greeter_directory :: "nat RegistryFactory" where
  "greeter_directory = \<lparr> m_registries = [(''greeter'', Some greeter)] \<rparr>"

section \<open>Facts about the model of std::map\<close>

lemma map_count_pos: "(map_count m k > 0) = (map_of m k \<noteq> None)"
  by (simp add: map_count_def split: option.split)

lemma map_count_zero: "(map_count m k = 0) = (map_of m k = None)"
  by (simp add: map_count_def split: option.split)

lemma map_of_map_assign: "map_of (map_assign m k v) = (map_of m)(k \<mapsto> v)"
  by (induction m k v rule: map_assign.induct) (auto simp: fun_upd_twist)

lemma keys_map_assign: "set (map fst (map_assign m k v)) = insert k (set (map fst m))"
  by (induction m k v rule: map_assign.induct) auto

lemma map_ok_Cons: "map_ok ((k, v) # m) = ((\<forall>j \<in> set (map fst m). k < j) \<and> map_ok m)"
  by (auto simp: map_ok_def)

lemma map_ok_map_assign: "map_ok m \<Longrightarrow> map_ok (map_assign m k v)"
proof (induction m k v rule: map_assign.induct)
  case (1 k v)
  then show ?case by (simp add: map_ok_def)
next
  case (2 k' v' m k v)
  then show ?case
    by (auto simp: map_ok_Cons keys_map_assign simp del: set_map)
qed

lemma map_ok_map_erase: "map_ok m \<Longrightarrow> map_ok (map_erase m k)"
  unfolding map_ok_def map_erase_def
  by (induction m) auto

lemma map_of_map_erase: "map_of (map_erase m k) = (map_of m)(k := None)"
  unfolding map_erase_def by (induction m) auto

lemma keys_store_through: "map fst (store_through m k v) = map fst m"
  by (induction m k v rule: store_through.induct) auto

lemma map_ok_store_through: "map_ok (store_through m k v) = map_ok m"
  by (simp add: map_ok_def keys_store_through)

lemma map_of_store_through:
  "map_of (store_through m k v) = (if map_of m k = None then map_of m else (map_of m)(k \<mapsto> v))"
  by (induction m k v rule: store_through.induct) (auto simp: fun_upd_twist)

lemma store_through_same: "map_of m k = Some v \<Longrightarrow> store_through m k v = m"
  by (induction m k v rule: store_through.induct) (auto split: if_splits)

lemma map_erase_store_through: "map_erase (store_through m k v) k = map_erase m k"
  unfolding map_erase_def
  by (induction m k v rule: store_through.induct) auto

lemma map_ok_distinct: "map_ok m \<Longrightarrow> distinct (map fst m)"
  unfolding map_ok_def using strict_sorted_iff by blast

lemma map_assign_append:
  "\<forall>j \<in> set (map fst m). j < k \<Longrightarrow> map_assign m k v = m @ [(k, v)]"
  by (induction m k v rule: map_assign.induct) auto

lemma set_map_assign: "set (map_assign m k v) \<subseteq> insert (k, v) (set m)"
  by (induction m k v rule: map_assign.induct) auto

section \<open>Facts about the example registry\<close>

lemma greeter_lookup_hello:
  "map_of (m_items greeter) ''hello'' = Some (Plugin_setName hello_item ''hello'')"
  by (simp add: greeter_def)

lemma greeter_lookup_broken:
  "map_of (m_items greeter) ''broken'' = Some (Plugin_setName broken_item ''broken'')"
  by (simp add: greeter_def)

lemma greeter_lookup_missing: "map_of (m_items greeter) ''missing'' = None"
  by (simp add: greeter_def)

lemma greeter_map_ok: "map_ok (m_items greeter)"
  by (simp add: greeter_def map_ok_def)

lemma greeter_directory_lookup:
  "map_of (m_registries greeter_directory) ''greeter'' = Some (Some greeter)"
  by (simp add: greeter_directory_def)

lemma hello_call:
  "Plugin_call (Plugin_setName hello_item ''hello'') [(''name'', ''alice'')] [] =
     ((Status 0 ''OK'', [[(''msg'', ''alice'')]]), Plugin_setName hello_item ''hello'')"
  by (simp add: Plugin_call_def Plugin_setName_def hello_item_def Plugin_def)

text \<open>
  The example registry and directory are what \<open>create\<close> and \<open>add\<close> build from the
  empty ones.
\<close>

lemma greeter_built:
  "greeter =
     snd (RegistryCore_add
            (snd (RegistryCore_add (RegistryCore_setName (RegistryCore True) ''greeter'')
                    hello_item ''hello''))
            broken_item ''broken'')"
  by (simp add: greeter_def RegistryCore_add_def RegistryCore_setName_def RegistryCore_def
      map_count_def)

lemma greeter_directory_built:
  "\<exists>d1. RegistryFactory_add (snd (RegistryFactory_create RegistryFactory ''greeter'' True))
           hello_item ''greeter'' ''hello'' = Returned (Status 0 ''OK'', d1) \<and>
         RegistryFactory_add d1 broken_item ''greeter'' ''broken'' =
           Returned (Status 0 ''OK'', greeter_directory)"
  by (simp add: greeter_directory_def greeter_def RegistryFactory_add_def
      RegistryFactory_create_def RegistryFactory_def RegistryFactory_registry_def map_at_def
      RegistryCore_add_def RegistryCore_setName_def RegistryCore_def map_count_def)

section \<open>The two loops of setUp\<close>

lemma setUp_loop_eq:
  "setUp_loop its failed =
     (map (\<lambda>e. (fst e, snd (Plugin_setUp (snd e)))) its,
      failed @ map fst (filter (\<lambda>e. \<not> ok (fst (Plugin_setUp (snd e)))) its),
      map (\<lambda>e. (fst e, SetUp)) its)"
  by (induction its arbitrary: failed) (auto split: prod.splits)

lemma RegistryCore_remove_present:
  "map_of (m_items c) k = Some item \<Longrightarrow>
   RegistryCore_remove c k =
     (c\<lparr>m_items := map_erase (m_items c) k\<rparr>, [(k, TearDown (Plugin_tearDown item))])"
  by (simp add: RegistryCore_remove_def map_erase_store_through Let_def)

lemma remove_loop_eq:
  "distinct (map fst (m_items c)) \<Longrightarrow> distinct (map fst es) \<Longrightarrow> set es \<subseteq> set (m_items c) \<Longrightarrow>
   remove_loop c (map fst es) =
     (c\<lparr>m_items := filter (\<lambda>e. fst e \<notin> set (map fst es)) (m_items c)\<rparr>,
      map (\<lambda>e. (fst e, TearDown (Plugin_tearDown (snd e)))) es)"
proof (induction es arbitrary: c)
  case Nil
  then show ?case by simp
next
  case (Cons e es)
  let ?c' = "c\<lparr>m_items := map_erase (m_items c) (fst e)\<rparr>"
  from Cons.prems have "map_of (m_items c) (fst e) = Some (snd e)"
    by (intro map_of_is_SomeI) simp_all
  then have r: "RegistryCore_remove c (fst e) = (?c', [(fst e, TearDown (Plugin_tearDown (snd e)))])"
    by (rule RegistryCore_remove_present)
  have d': "distinct (map fst (m_items ?c'))"
    using Cons.prems(1) by (simp add: map_erase_def distinct_map_filter)
  have sub: "set es \<subseteq> set (m_items ?c')"
  proof
    fix x assume x: "x \<in> set es"
    with Cons.prems have "fst x \<noteq> fst e" and "x \<in> set (m_items c)"
      by (auto simp: image_iff)
    then show "x \<in> set (m_items ?c')"
      by (simp add: map_erase_def)
  qed
  from Cons.prems have de: "distinct (map fst es)" by simp
  have "remove_loop ?c' (map fst es) =
     (?c'\<lparr>m_items := filter (\<lambda>e. fst e \<notin> set (map fst es)) (m_items ?c')\<rparr>,
      map (\<lambda>e. (fst e, TearDown (Plugin_tearDown (snd e)))) es)"
    by (rule Cons.IH [OF d' de sub])
  moreover have "filter (\<lambda>x. fst x \<notin> set (map fst es)) (map_erase (m_items c) (fst e)) =
      filter (\<lambda>x. fst x \<notin> set (map fst (e # es))) (m_items c)"
    by (auto simp: map_erase_def intro: filter_cong)
  ultimately show ?case
    using r by simp
qed

lemma failed_keys:
  assumes "distinct (map fst its)" "e \<in> set its"
  shows "(fst e \<in> set (map fst (filter P its))) = P e"
proof
  assume "fst e \<in> set (map fst (filter P its))"
  then obtain e' where e': "e' \<in> set its" "P e'" "fst e' = fst e" by auto
  with assms have "e' = e"
    by (meson distinct_map inj_onD)
  with e' show "P e" by simp
next
  assume "P e" with assms show "fst e \<in> set (map fst (filter P its))" by auto
qed

lemma RegistryCore_setUp_eq:
  assumes "m_auto_setup c" "map_ok (m_items c)"
  shows "RegistryCore_setUp c =
     (c\<lparr>m_items := map (\<lambda>e. (fst e, snd (Plugin_setUp (snd e))))
                      (filter (\<lambda>e. ok (fst (Plugin_setUp (snd e)))) (m_items c))\<rparr>,
      map (\<lambda>e. (fst e, SetUp)) (m_items c) @
      map (\<lambda>e. (fst e, TearDown (Plugin_tearDown (snd (Plugin_setUp (snd e))))))
        (filter (\<lambda>e. \<not> ok (fst (Plugin_setUp (snd e)))) (m_items c)))"
proof -
  let ?f = "\<lambda>e. (fst e, snd (Plugin_setUp (snd e)))"
  let ?bad = "\<lambda>e. \<not> ok (fst (Plugin_setUp (snd e)))"
  let ?failed = "map fst (filter ?bad (m_items c))"
  let ?es = "map ?f (filter ?bad (m_items c))"
  let ?c1 = "c\<lparr>m_items := map ?f (m_items c)\<rparr>"
  have d: "distinct (map fst (m_items c))"
    using assms(2) by (rule map_ok_distinct)
  have keys: "map fst ?es = ?failed"
    by (simp add: comp_def)
  have d1: "distinct (map fst (m_items ?c1))"
    using d by (simp add: comp_def)
  have de: "distinct (map fst ?es)"
    using d by (simp add: comp_def distinct_map_filter)
  have sub: "set ?es \<subseteq> set (m_items ?c1)"
    by auto
  have rl: "remove_loop ?c1 ?failed =
     (?c1\<lparr>m_items := filter (\<lambda>e. fst e \<notin> set ?failed) (m_items ?c1)\<rparr>,
      map (\<lambda>e. (fst e, TearDown (Plugin_tearDown (snd e)))) ?es)"
    using remove_loop_eq [OF d1 de sub] by (simp only: keys)
  have "filter (\<lambda>e. fst e \<notin> set ?failed) (map ?f (m_items c)) =
        map ?f (filter (\<lambda>e. fst e \<notin> set ?failed) (m_items c))"
    by (simp add: filter_map comp_def)
  also have "filter (\<lambda>e. fst e \<notin> set ?failed) (m_items c) =
        filter (\<lambda>e. ok (fst (Plugin_setUp (snd e)))) (m_items c)"
    by (rule filter_cong [OF refl]) (simp only: failed_keys [OF d] not_not)
  finally have fl: "filter (\<lambda>e. fst e \<notin> set ?failed) (map ?f (m_items c)) =
        map ?f (filter (\<lambda>e. ok (fst (Plugin_setUp (snd e)))) (m_items c))" .
  show ?thesis
    using assms(1) rl fl
    by (simp add: RegistryCore_setUp_def setUp_loop_eq comp_def)
qed

lemma map_of_map_filter:
  "distinct (map fst its) \<Longrightarrow> map_of its k = Some p \<Longrightarrow>
   map_of (map (\<lambda>e. (fst e, g (snd e))) (filter P its)) k =
     (if P (k, p) then Some (g p) else None)"
proof (induction its)
  case Nil
  then show ?case by simp
next
  case (Cons e its)
  show ?case
  proof (cases "fst e = k")
    case True
    with Cons.prems have e: "e = (k, p)" by (cases e) simp
    have "k \<notin> fst ` set (filter P its)"
      using Cons.prems(1) True by auto
    then have "map_of (map (\<lambda>e. (fst e, g (snd e))) (filter P its)) k = None"
      by (simp add: map_of_eq_None_iff image_image)
    with e show ?thesis by simp
  next
    case False
    with Cons show ?thesis by (cases e) auto
  qed
qed

section \<open>The loops of getRoutes and getBroadcast\<close>

lemma getRoutes_loop_eq:
  "sorted_wrt (<) (map fst route_table @ map fst its) \<Longrightarrow>
   getRoutes_loop its route_table =
     (map (\<lambda>e. (fst e, snd (Plugin_routeInfo (snd e)))) its,
      route_table @ map (\<lambda>e. (fst e, fst (Plugin_routeInfo (snd e)))) its,
      map (\<lambda>e. (fst e, RouteInfo)) its)"
proof (induction its arbitrary: route_table)
  case Nil
  then show ?case by simp
next
  case (Cons item rest)
  let ?info = "fst (Plugin_routeInfo (snd item))"
  from Cons.prems have below: "\<forall>j \<in> set (map fst route_table). j < fst item"
    by (auto simp: sorted_wrt_append)
  then have asg: "map_assign route_table (fst item) ?info = route_table @ [(fst item, ?info)]"
    by (rule map_assign_append)
  from Cons.prems
  have "sorted_wrt (<) (map fst (route_table @ [(fst item, ?info)]) @ map fst rest)"
    by simp
  from Cons.IH [OF this] asg show ?case
    by (simp add: case_prod_beta)
qed

lemma RegistryCore_getRoutes_eq:
  "map_ok (m_items c) \<Longrightarrow>
   RegistryCore_getRoutes c =
     (map (\<lambda>e. (fst e, fst (Plugin_routeInfo (snd e)))) (m_items c),
      c\<lparr>m_items := map (\<lambda>e. (fst e, snd (Plugin_routeInfo (snd e)))) (m_items c)\<rparr>,
      map (\<lambda>e. (fst e, RouteInfo)) (m_items c))"
  by (simp add: RegistryCore_getRoutes_def map_ok_def getRoutes_loop_eq)

lemma getBroadcast_loop_eq:
  "sorted_wrt (<) (map fst broadcast @ map fst cs) \<Longrightarrow>
   getBroadcast_loop (map (\<lambda>e. (fst e, Some (snd e))) cs) broadcast =
     Returned
       (map (\<lambda>e. (fst e, Some (fst (snd (RegistryCore_getRoutes (snd e)))))) cs,
        broadcast @ map (\<lambda>e. (fst e, fst (RegistryCore_getRoutes (snd e)))) cs,
        concat (map (\<lambda>e. snd (snd (RegistryCore_getRoutes (snd e)))) cs))"
proof (induction cs arbitrary: broadcast)
  case Nil
  then show ?case by simp
next
  case (Cons registry rest)
  let ?routes = "fst (RegistryCore_getRoutes (snd registry))"
  from Cons.prems have below: "\<forall>j \<in> set (map fst broadcast). j < fst registry"
    by (auto simp: sorted_wrt_append)
  then have asg: "map_assign broadcast (fst registry) ?routes = broadcast @ [(fst registry, ?routes)]"
    by (rule map_assign_append)
  from Cons.prems
  have "sorted_wrt (<) (map fst (broadcast @ [(fst registry, ?routes)]) @ map fst rest)"
    by simp
  from Cons.IH [OF this] asg show ?case
    by (simp add: case_prod_beta)
qed

lemma RegistryFactory_getBroadcast_eq:
  "map_ok cs \<Longrightarrow> m_registries d = map (\<lambda>e. (fst e, Some (snd e))) cs \<Longrightarrow>
   RegistryFactory_getBroadcast d =
     Returned
       (map (\<lambda>e. (fst e, fst (RegistryCore_getRoutes (snd e)))) cs,
        d\<lparr>m_registries := map (\<lambda>e. (fst e, Some (fst (snd (RegistryCore_getRoutes (snd e)))))) cs\<rparr>,
        concat (map (\<lambda>e. snd (snd (RegistryCore_getRoutes (snd e)))) cs))"
  by (simp add: RegistryFactory_getBroadcast_def map_ok_def getBroadcast_loop_eq)

section \<open>Every member function keeps the maps well formed\<close>

text \<open>
  The theorems below about \<open>setUp\<close>, \<open>getRoutes\<close> and \<open>getBroadcast\<close> assume that
  a map has strictly ascending keys. The assumption holds of a new registry and of a new
  directory, and every function of the header keeps it; in a directory that satisfies it
  no function meets an empty pointer.
\<close>

lemma map_ok_filter: "map_ok m \<Longrightarrow> map_ok (filter P m)"
  unfolding map_ok_def by (induction m) auto

lemma map_ok_same_keys: "map fst m' = map fst m \<Longrightarrow> map_ok m' = map_ok m"
  by (simp add: map_ok_def)

lemma RegistryCore_new_ok: "map_ok (m_items (RegistryCore auto_setup))"
  by (simp add: RegistryCore_def map_ok_def)

lemma RegistryCore_add_ok:
  "map_ok (m_items c) \<Longrightarrow> map_ok (m_items (snd (RegistryCore_add c new_Item item_name)))"
  by (simp add: RegistryCore_add_def map_ok_map_assign Let_def)

lemma RegistryCore_remove_ok:
  "map_ok (m_items c) \<Longrightarrow> map_ok (m_items (fst (RegistryCore_remove c item_name)))"
  by (simp add: RegistryCore_remove_def map_erase_store_through map_ok_map_erase
      split: option.split)

lemma RegistryCore_call_ok:
  "map_ok (m_items c) \<Longrightarrow>
   map_ok (m_items (fst (snd (RegistryCore_call c item_name request response))))"
  by (simp add: RegistryCore_call_def map_ok_store_through case_prod_beta split: option.split)

lemma RegistryCore_getRoutes_ok:
  "map_ok (m_items c) \<Longrightarrow> map_ok (m_items (fst (snd (RegistryCore_getRoutes c))))"
proof -
  assume m: "map_ok (m_items c)"
  have "map_ok (map (\<lambda>e. (fst e, snd (Plugin_routeInfo (snd e)))) (m_items c)) =
      map_ok (m_items c)"
    by (rule map_ok_same_keys) (simp add: comp_def)
  with m show ?thesis
    by (simp add: RegistryCore_getRoutes_eq [OF m])
qed

lemma RegistryCore_setUp_ok:
  "map_ok (m_items c) \<Longrightarrow> map_ok (m_items (fst (RegistryCore_setUp c)))"
proof (cases "m_auto_setup c")
  case False
  assume "map_ok (m_items c)"
  with False show ?thesis by (simp add: RegistryCore_setUp_def)
next
  case True
  assume m: "map_ok (m_items c)"
  let ?kept = "filter (\<lambda>e. ok (fst (Plugin_setUp (snd e)))) (m_items c)"
  have "map_ok (map (\<lambda>e. (fst e, snd (Plugin_setUp (snd e)))) ?kept) = map_ok ?kept"
    by (rule map_ok_same_keys) (simp add: comp_def)
  with m show ?thesis
    by (simp add: RegistryCore_setUp_eq [OF True m] map_ok_filter)
qed


lemma list_all_map_assign:
  "list_all P m \<Longrightarrow> P (k, v) \<Longrightarrow> list_all P (map_assign m k v)"
  by (induction m k v rule: map_assign.induct) auto

lemma list_all_store_through:
  "list_all P m \<Longrightarrow> P (k, v) \<Longrightarrow> list_all P (store_through m k v)"
  by (induction m k v rule: store_through.induct) auto

lemma RegistryFactory_new_ok: "registries_ok RegistryFactory"
  by (simp add: registries_ok_def RegistryFactory_def map_ok_def)

lemma RegistryFactory_create_ok:
  "registries_ok d \<Longrightarrow> registries_ok (snd (RegistryFactory_create d registry_name auto_setup))"
  by (simp add: registries_ok_def RegistryFactory_create_def Let_def map_ok_map_assign
      list_all_map_assign RegistryCore_setName_def RegistryCore_new_ok)

lemma registries_ok_store:
  "registries_ok d \<Longrightarrow> map_ok (m_items c) \<Longrightarrow>
   registries_ok (d\<lparr>m_registries := store_through (m_registries d) registry_name (Some c)\<rparr>)"
  by (simp add: registries_ok_def map_ok_store_through list_all_store_through)

lemma registries_ok_lookup:
  "registries_ok d \<Longrightarrow> map_of (m_registries d) registry_name = Some h \<Longrightarrow>
   \<exists>c. h = Some c \<and> map_ok (m_items c)"
  by (auto simp: registries_ok_def list_all_iff dest!: map_of_SomeD split: option.splits)

lemma registries_ok_pointee:
  "registries_ok d \<Longrightarrow> map_of (m_registries d) registry_name = Some (Some c) \<Longrightarrow>
   map_ok (m_items c)"
  using registries_ok_lookup by fastforce

lemma RegistryFactory_add_ok:
  "registries_ok d \<Longrightarrow>
   RegistryFactory_add d new_Item registry_name item_name = Returned (st, d') \<Longrightarrow>
   registries_ok d'"
  by (auto simp: RegistryFactory_add_def RegistryFactory_registry_def map_at_def case_prod_beta
      intro!: registries_ok_store RegistryCore_add_ok dest: registries_ok_pointee
      split: option.splits)

lemma RegistryFactory_call_ok:
  "registries_ok d \<Longrightarrow>
   RegistryFactory_call d registry_name item_name request response = Returned (r, d', calls) \<Longrightarrow>
   registries_ok d'"
  by (auto simp: RegistryFactory_call_def case_prod_beta
      intro!: registries_ok_store RegistryCore_call_ok dest: registries_ok_pointee
      split: option.splits)

lemma RegistryFactory_call_no_fault:
  "registries_ok d \<Longrightarrow>
   RegistryFactory_call d registry_name item_name request response \<noteq> Raised f"
  by (auto simp: RegistryFactory_call_def case_prod_beta
      dest: registries_ok_lookup split: option.splits)

lemma getBroadcast_loop_ok:
  "map_ok rs \<Longrightarrow>
   list_all (\<lambda>e. case snd e of None \<Rightarrow> False | Some c \<Rightarrow> map_ok (m_items c)) rs \<Longrightarrow>
   \<exists>rs' broadcast' calls. getBroadcast_loop rs broadcast = Returned (rs', broadcast', calls) \<and>
     map fst rs' = map fst rs \<and>
     list_all (\<lambda>e. case snd e of None \<Rightarrow> False | Some c \<Rightarrow> map_ok (m_items c)) rs'"
proof (induction rs arbitrary: broadcast)
  case Nil
  then show ?case by simp
next
  case (Cons registry rest)
  from Cons.prems obtain c where c: "snd registry = Some c" "map_ok (m_items c)"
    by (auto split: option.splits)
  from Cons.prems have "map_ok rest"
    by (cases registry) (simp add: map_ok_Cons)
  moreover from Cons.prems
  have "list_all (\<lambda>e. case snd e of None \<Rightarrow> False | Some c \<Rightarrow> map_ok (m_items c)) rest"
    by simp
  ultimately obtain rs' broadcast' calls where
    "getBroadcast_loop rest (map_assign broadcast (fst registry) (fst (RegistryCore_getRoutes c))) =
       Returned (rs', broadcast', calls)"
    "map fst rs' = map fst rest"
    "list_all (\<lambda>e. case snd e of None \<Rightarrow> False | Some c \<Rightarrow> map_ok (m_items c)) rs'"
    using Cons.IH by blast
  with c show ?case
    by (simp add: case_prod_beta RegistryCore_getRoutes_ok)
qed

lemma RegistryFactory_getBroadcast_ok:
  "registries_ok d \<Longrightarrow>
   \<exists>broadcast d' calls. RegistryFactory_getBroadcast d = Returned (broadcast, d', calls) \<and>
     registries_ok d'"
proof -
  assume ok: "registries_ok d"
  then obtain rs' broadcast' calls where
    "getBroadcast_loop (m_registries d) [] = Returned (rs', broadcast', calls)"
    "map fst rs' = map fst (m_registries d)"
    "list_all (\<lambda>e. case snd e of None \<Rightarrow> False | Some c \<Rightarrow> map_ok (m_items c)) rs'"
    using getBroadcast_loop_ok [of "m_registries d" "[]"]
    by (auto simp: registries_ok_def)
  with ok show ?thesis
    by (simp add: RegistryFactory_getBroadcast_def registries_ok_def map_ok_def)
qed

lemma RegistryFactory_setUp_loop_ok:
  "map_ok rs \<Longrightarrow>
   list_all (\<lambda>e. case snd e of None \<Rightarrow> False | Some c \<Rightarrow> map_ok (m_items c)) rs \<Longrightarrow>
   \<exists>rs' calls. RegistryFactory_setUp_loop rs = Returned (rs', calls) \<and>
     map fst rs' = map fst rs \<and>
     list_all (\<lambda>e. case snd e of None \<Rightarrow> False | Some c \<Rightarrow> map_ok (m_items c)) rs'"
proof (induction rs)
  case Nil
  then show ?case by simp
next
  case (Cons registry rest)
  from Cons.prems obtain c where c: "snd registry = Some c" "map_ok (m_items c)"
    by (auto split: option.splits)
  from Cons.prems have "map_ok rest"
    by (cases registry) (simp add: map_ok_Cons)
  moreover from Cons.prems
  have "list_all (\<lambda>e. case snd e of None \<Rightarrow> False | Some c \<Rightarrow> map_ok (m_items c)) rest"
    by simp
  ultimately obtain rs' calls where
    "RegistryFactory_setUp_loop rest = Returned (rs', calls)"
    "map fst rs' = map fst rest"
    "list_all (\<lambda>e. case snd e of None \<Rightarrow> False | Some c \<Rightarrow> map_ok (m_items c)) rs'"
    using Cons.IH by blast
  with c show ?case
    by (simp add: case_prod_beta RegistryCore_setUp_ok)
qed

lemma RegistryFactory_setUp_ok:
  "registries_ok d \<Longrightarrow>
   \<exists>d' calls. RegistryFactory_setUp d = Returned (d', calls) \<and> registries_ok d'"
proof -
  assume ok: "registries_ok d"
  then obtain rs' calls where
    "RegistryFactory_setUp_loop (m_registries d) = Returned (rs', calls)"
    "map fst rs' = map fst (m_registries d)"
    "list_all (\<lambda>e. case snd e of None \<Rightarrow> False | Some c \<Rightarrow> map_ok (m_items c)) rs'"
    using RegistryFactory_setUp_loop_ok [of "m_registries d"]
    by (auto simp: registries_ok_def)
  with ok show ?thesis
    by (simp add: RegistryFactory_setUp_def registries_ok_def map_ok_def)
qed

lemma greeter_directory_ok: "registries_ok greeter_directory"
  by (simp add: registries_ok_def greeter_directory_def map_ok_def greeter_def)


lemma registries_ok_pointees:
  "registries_ok d \<Longrightarrow>
   \<exists>cs. map_ok cs \<and> m_registries d = map (\<lambda>e. (fst e, Some (snd e))) cs"
proof -
  assume ok: "registries_ok d"
  let ?cs = "map (\<lambda>e. (fst e, the (snd e))) (m_registries d)"
  have "map (\<lambda>e. (fst e, Some (snd e))) ?cs = map (\<lambda>e. e) (m_registries d)"
    unfolding map_map
  proof (rule map_cong [OF refl])
    fix e assume "e \<in> set (m_registries d)"
    with ok obtain c where "snd e = Some c"
      by (auto simp: registries_ok_def list_all_iff split: option.splits)
    then show "((\<lambda>e. (fst e, Some (snd e))) \<circ> (\<lambda>e. (fst e, the (snd e)))) e = e"
      by (cases e) simp
  qed
  moreover from ok have "map_ok ?cs"
    by (simp add: registries_ok_def map_ok_def comp_def)
  ultimately show ?thesis by auto
qed

section \<open>RegistryCore\<close>

subsection \<open>get\<close>

text \<open>
  C1, as the header has it. \<open>RegistryCore::get\<close> is \<open>items_.at(item_name)\<close>: for a name
  that is not in the registry it raises \<open>std::out_of_range\<close>, as its comment announces, and
  returns no status; for a name that is in the registry it returns the stored item.
\<close>

theorem RegistryCore_get_raises:
  "(\<not> RegistryCore_exists c item_name \<longrightarrow> RegistryCore_get c item_name = Raised out_of_range) \<and>
   (\<forall>item. map_of (m_items c) item_name = Some item \<longrightarrow>
      RegistryCore_exists c item_name \<and> RegistryCore_get c item_name = Returned item)"
  by (simp add: RegistryCore_exists_def RegistryCore_get_def map_at_def map_count_pos)

theorem RegistryCore_get_raises_witness:
  "\<not> RegistryCore_exists greeter ''missing'' \<and>
   RegistryCore_get greeter ''missing'' = Raised out_of_range \<and>
   map_of (m_items greeter) ''hello'' = Some (Plugin_setName hello_item ''hello'') \<and>
   RegistryCore_get greeter ''hello'' = Returned (Plugin_setName hello_item ''hello'')"
  using RegistryCore_get_raises [of greeter "''missing''"]
        RegistryCore_get_raises [of greeter "''hello''"]
  by (simp add: RegistryCore_exists_def map_count_def greeter_lookup_missing greeter_lookup_hello)

text \<open>
  C1 as the specification words it asks for a returned ItemNotFound result instead of a
  fault. On the example registry the name \<open>missing\<close> is absent and \<open>get\<close> raises.
\<close>

theorem RegistryCore_get_counterexample:
  "\<not> RegistryCore_exists greeter ''missing'' \<and>
   RegistryCore_get greeter ''missing'' = Raised out_of_range"
  by (simp add: RegistryCore_exists_def RegistryCore_get_def map_at_def map_count_def
      greeter_lookup_missing)

subsection \<open>add\<close>

text \<open>
  C5. For a name already in the registry \<open>add\<close> returns the failure status
  \<open>Duplicate registry item exists: <name>\<close> and the registry is the one it was, so
  \<open>get\<close> and \<open>call\<close> of that name give what they gave before. For a name not in the
  registry it returns \<open>Status(0, "OK")\<close>, and the registry holds the constructed item, with
  \<open>name_\<close> set to the name, under that name; every other name is as before.
\<close>

theorem RegistryCore_add_duplicate:
  "(RegistryCore_exists c item_name \<longrightarrow>
      RegistryCore_add c new_Item item_name =
        (Status 1 (''Duplicate registry item exists: '' @ item_name), c) \<and>
      \<not> ok (fst (RegistryCore_add c new_Item item_name)) \<and>
      RegistryCore_get (snd (RegistryCore_add c new_Item item_name)) item_name =
        RegistryCore_get c item_name \<and>
      RegistryCore_call (snd (RegistryCore_add c new_Item item_name)) item_name request response =
        RegistryCore_call c item_name request response) \<and>
   (\<not> RegistryCore_exists c item_name \<longrightarrow>
      RegistryCore_add c new_Item item_name =
        (Status 0 ''OK'',
         c\<lparr>m_items := map_assign (m_items c) item_name (new_Item\<lparr>m_name := item_name\<rparr>)\<rparr>) \<and>
      ok (fst (RegistryCore_add c new_Item item_name)) \<and>
      RegistryCore_exists (snd (RegistryCore_add c new_Item item_name)) item_name \<and>
      RegistryCore_get (snd (RegistryCore_add c new_Item item_name)) item_name =
        Returned (new_Item\<lparr>m_name := item_name\<rparr>) \<and>
      (\<forall>other. other \<noteq> item_name \<longrightarrow>
         RegistryCore_get (snd (RegistryCore_add c new_Item item_name)) other =
           RegistryCore_get c other))"
  by (simp add: RegistryCore_exists_def RegistryCore_add_def RegistryCore_get_def
      Plugin_setName_def map_at_def map_count_pos map_of_map_assign ok_def)

theorem RegistryCore_add_duplicate_witness:
  "RegistryCore_exists greeter ''hello'' \<and>
   RegistryCore_add greeter broken_item ''hello'' =
     (Status 1 ''Duplicate registry item exists: hello'', greeter) \<and>
   \<not> RegistryCore_exists greeter ''fresh'' \<and>
   fst (RegistryCore_add greeter hello_item ''fresh'') = Status 0 ''OK'' \<and>
   RegistryCore_names (snd (RegistryCore_add greeter hello_item ''fresh'')) =
     [''broken'', ''fresh'', ''hello'']"
  using RegistryCore_add_duplicate [of greeter "''hello''" broken_item]
        RegistryCore_add_duplicate [of greeter "''fresh''" hello_item]
  by (simp add: RegistryCore_exists_def RegistryCore_names_def map_count_def greeter_def)

subsection \<open>setUp\<close>

text \<open>
  C6. A registry created with \<open>auto_setup\<close> false returns from \<open>setUp\<close> at once: no
  virtual method of any item is called and the registry, its items included, is unchanged.
\<close>

theorem RegistryCore_setUp_lazy:
  "\<not> m_auto_setup c \<Longrightarrow> RegistryCore_setUp c = (c, [])"
  by (simp add: RegistryCore_setUp_def)

theorem RegistryCore_setUp_lazy_witness:
  "\<not> m_auto_setup (greeter\<lparr>m_auto_setup := False\<rparr>) \<and>
   m_items (greeter\<lparr>m_auto_setup := False\<rparr>) \<noteq> [] \<and>
   RegistryCore_setUp (greeter\<lparr>m_auto_setup := False\<rparr>) = (greeter\<lparr>m_auto_setup := False\<rparr>, [])"
  using RegistryCore_setUp_lazy [of "greeter\<lparr>m_auto_setup := False\<rparr>"]
  by (simp add: greeter_def)

text \<open>
  C3. For a registry with \<open>auto_setup\<close> true (and \<open>items_\<close> a map: keys strictly
  ascending), the first loop of \<open>setUp\<close> calls \<open>setUp\<close> once on every item, in key
  order, keeps the keys of \<open>items_\<close> as they are and collects the names whose \<open>setUp\<close>
  did not return ok. The whole function then returns the registry
  with exactly the items whose \<open>setUp\<close> was ok, each in the state its \<open>setUp\<close> left it
  in. After the calls of \<open>setUp\<close> it has called, for each failed name and for no other,
  the \<open>tearDown\<close> of that item once: the object it lets go of is the item as its
  \<open>setUp\<close> left it with its own \<open>tearDown\<close> body run once on its members. An item whose \<open>setUp\<close> was ok exists
  afterwards, \<open>get\<close> returns it and \<open>call\<close> reaches its \<open>call\<close>; an item whose
  \<open>setUp\<close> failed no longer exists.
\<close>

theorem RegistryCore_setUp_prunes:
  "m_auto_setup c \<Longrightarrow> map_ok (m_items c) \<Longrightarrow>
   (case setUp_loop (m_items c) [] of
      (items1, failed, calls1) \<Rightarrow>
        map fst items1 = map fst (m_items c) \<and>
        calls1 = map (\<lambda>k. (k, SetUp)) (RegistryCore_names c) \<and>
        failed = map fst (filter (\<lambda>e. \<not> ok (fst (Plugin_setUp (snd e)))) (m_items c))) \<and>
   RegistryCore_setUp c =
     (c\<lparr>m_items := map (\<lambda>e. (fst e, snd (Plugin_setUp (snd e))))
                      (filter (\<lambda>e. ok (fst (Plugin_setUp (snd e)))) (m_items c))\<rparr>,
      map (\<lambda>k. (k, SetUp)) (RegistryCore_names c) @
      map (\<lambda>e. let q = snd (Plugin_setUp (snd e))
               in (fst e, TearDown (q\<lparr>self := v_tearDown q (self q)\<rparr>)))
        (filter (\<lambda>e. \<not> ok (fst (Plugin_setUp (snd e)))) (m_items c))) \<and>
   (\<forall>k p. map_of (m_items c) k = Some p \<longrightarrow>
      (if ok (fst (Plugin_setUp p))
       then RegistryCore_exists (fst (RegistryCore_setUp c)) k \<and>
            RegistryCore_get (fst (RegistryCore_setUp c)) k = Returned (snd (Plugin_setUp p)) \<and>
            fst (RegistryCore_call (fst (RegistryCore_setUp c)) k request response) =
              fst (Plugin_call (snd (Plugin_setUp p)) request response)
       else \<not> RegistryCore_exists (fst (RegistryCore_setUp c)) k))"
proof -
  assume a: "m_auto_setup c" and m: "map_ok (m_items c)"
  let ?good = "\<lambda>e. ok (fst (Plugin_setUp (snd e)))"
  let ?items' = "map (\<lambda>e. (fst e, snd (Plugin_setUp (snd e)))) (filter ?good (m_items c))"
  have first: "case setUp_loop (m_items c) [] of
      (items1, failed, calls1) \<Rightarrow>
        map fst items1 = map fst (m_items c) \<and>
        calls1 = map (\<lambda>k. (k, SetUp)) (RegistryCore_names c) \<and>
        failed = map fst (filter (\<lambda>e. \<not> ok (fst (Plugin_setUp (snd e)))) (m_items c))"
    by (simp add: setUp_loop_eq RegistryCore_names_def comp_def)
  have whole: "RegistryCore_setUp c =
     (c\<lparr>m_items := ?items'\<rparr>,
      map (\<lambda>k. (k, SetUp)) (RegistryCore_names c) @
      map (\<lambda>e. let q = snd (Plugin_setUp (snd e))
               in (fst e, TearDown (q\<lparr>self := v_tearDown q (self q)\<rparr>)))
        (filter (\<lambda>e. \<not> ok (fst (Plugin_setUp (snd e)))) (m_items c)))"
    by (simp add: RegistryCore_setUp_eq [OF a m] RegistryCore_names_def Plugin_tearDown_def
        Let_def comp_def)
  have d: "distinct (map fst (m_items c))"
    using m by (rule map_ok_distinct)
  have look: "map_of ?items' k = (if ok (fst (Plugin_setUp p)) then Some (snd (Plugin_setUp p)) else None)"
    if "map_of (m_items c) k = Some p" for k p
    using map_of_map_filter [OF d that, of "\<lambda>q. snd (Plugin_setUp q)" ?good] by simp
  have each: "\<forall>k p. map_of (m_items c) k = Some p \<longrightarrow>
      (if ok (fst (Plugin_setUp p))
       then RegistryCore_exists (fst (RegistryCore_setUp c)) k \<and>
            RegistryCore_get (fst (RegistryCore_setUp c)) k = Returned (snd (Plugin_setUp p)) \<and>
            fst (RegistryCore_call (fst (RegistryCore_setUp c)) k request response) =
              fst (Plugin_call (snd (Plugin_setUp p)) request response)
       else \<not> RegistryCore_exists (fst (RegistryCore_setUp c)) k)"
    by (auto simp: whole look RegistryCore_exists_def RegistryCore_get_def RegistryCore_call_def
        map_count_pos map_at_def split: prod.splits)
  from first whole each show ?thesis by blast
qed

theorem RegistryCore_setUp_prunes_witness:
  "m_auto_setup greeter \<and> map_ok (m_items greeter) \<and>
   RegistryCore_setUp greeter =
     (greeter\<lparr>m_items := [(''hello'', (Plugin_setName hello_item ''hello'')\<lparr>self := 1\<rparr>)]\<rparr>,
      [(''broken'', SetUp), (''hello'', SetUp),
       (''broken'', TearDown ((Plugin_setName broken_item ''broken'')\<lparr>self := 1\<rparr>))]) \<and>
   RegistryCore_exists (fst (RegistryCore_setUp greeter)) ''hello'' \<and>
   \<not> RegistryCore_exists (fst (RegistryCore_setUp greeter)) ''broken''"
proof -
  have a: "m_auto_setup greeter" by (simp add: greeter_def)
  have hello_ok: "ok (fst (Plugin_setUp (Plugin_setName hello_item ''hello'')))"
    by (simp add: Plugin_setUp_def Plugin_setName_def hello_item_def Plugin_def ok_def)
  have broken_bad: "\<not> ok (fst (Plugin_setUp (Plugin_setName broken_item ''broken'')))"
    by (simp add: Plugin_setUp_def Plugin_setName_def broken_item_def Plugin_def ok_def)
  have broken': "snd (Plugin_setUp (Plugin_setName broken_item ''broken'')) =
      Plugin_setName broken_item ''broken''"
    by (simp add: Plugin_setUp_def Plugin_setName_def broken_item_def Plugin_def)
  have torn: "v_tearDown (Plugin_setName broken_item ''broken'')
      (self (Plugin_setName broken_item ''broken'')) = 1"
    by (simp add: Plugin_setName_def broken_item_def Plugin_def)
  have hello': "snd (Plugin_setUp (Plugin_setName hello_item ''hello'')) =
      (Plugin_setName hello_item ''hello'')\<lparr>self := 1\<rparr>"
    by (simp add: Plugin_setUp_def Plugin_setName_def hello_item_def Plugin_def)
  have its: "m_items greeter = [(''broken'', Plugin_setName broken_item ''broken''),
                  (''hello'', Plugin_setName hello_item ''hello'')]"
    by (simp add: greeter_def)
  note t = RegistryCore_setUp_prunes [OF a greeter_map_ok, of "[]" "[]"]
  from t have whole: "RegistryCore_setUp greeter =
     (greeter\<lparr>m_items := [(''hello'', (Plugin_setName hello_item ''hello'')\<lparr>self := 1\<rparr>)]\<rparr>,
      [(''broken'', SetUp), (''hello'', SetUp),
       (''broken'', TearDown ((Plugin_setName broken_item ''broken'')\<lparr>self := 1\<rparr>))])"
    by (simp add: its hello_ok broken_bad hello' broken' torn RegistryCore_names_def)
  note each = conjunct2 [OF conjunct2 [OF t], rule_format]
  from each [OF greeter_lookup_hello] hello_ok
  have e1: "RegistryCore_exists (fst (RegistryCore_setUp greeter)) ''hello''"
    by simp
  from each [OF greeter_lookup_broken] broken_bad
  have e2: "\<not> RegistryCore_exists (fst (RegistryCore_setUp greeter)) ''broken''"
    by simp
  from a greeter_map_ok whole e1 e2 show ?thesis by blast
qed

subsection \<open>remove\<close>

text \<open>
  C8. \<open>remove\<close> of a name in the registry calls that item's \<open>tearDown\<close>, and nothing
  else, once, and erases the entry: the one invocation is \<open>tearDown\<close> under that name,
  and the object let go of is the stored item with its own \<open>tearDown\<close> body run once on
  its members. Afterwards \<open>exists\<close> is false, \<open>call\<close> returns the
  failure status \<open>Cannot call registry item: <name>\<close> without calling anything, and every
  other name is as before. \<open>remove\<close> of a name not in the registry returns the registry
  as it was and calls nothing; it has no status to return.
\<close>

theorem RegistryCore_remove_spec:
  "(\<forall>item. map_of (m_items c) item_name = Some item \<longrightarrow>
      RegistryCore_remove c item_name =
        (c\<lparr>m_items := map_erase (m_items c) item_name\<rparr>,
         [(item_name, TearDown (item\<lparr>self := v_tearDown item (self item)\<rparr>))]) \<and>
      \<not> RegistryCore_exists (fst (RegistryCore_remove c item_name)) item_name \<and>
      RegistryCore_call (fst (RegistryCore_remove c item_name)) item_name request response =
        ((Status 1 (''Cannot call registry item: '' @ item_name), response),
         fst (RegistryCore_remove c item_name), []) \<and>
      (\<forall>other. other \<noteq> item_name \<longrightarrow>
         RegistryCore_get (fst (RegistryCore_remove c item_name)) other =
           RegistryCore_get c other)) \<and>
   (\<not> RegistryCore_exists c item_name \<longrightarrow> RegistryCore_remove c item_name = (c, []))"
  by (auto simp add: RegistryCore_exists_def RegistryCore_remove_def RegistryCore_get_def
      RegistryCore_call_def Plugin_tearDown_def Let_def map_at_def map_count_pos
      map_of_map_erase map_erase_store_through)

theorem RegistryCore_remove_spec_witness:
  "map_of (m_items greeter) ''broken'' = Some (Plugin_setName broken_item ''broken'') \<and>
   RegistryCore_remove greeter ''broken'' =
     (greeter\<lparr>m_items := [(''hello'', Plugin_setName hello_item ''hello'')]\<rparr>,
      [(''broken'', TearDown ((Plugin_setName broken_item ''broken'')\<lparr>self := 1\<rparr>))]) \<and>
   \<not> RegistryCore_exists greeter ''missing'' \<and>
   RegistryCore_remove greeter ''missing'' = (greeter, [])"
  using RegistryCore_remove_spec [of greeter "''broken''"]
        RegistryCore_remove_spec [of greeter "''missing''"]
  by (simp add: RegistryCore_exists_def map_count_def map_erase_def greeter_def
      Plugin_setName_def broken_item_def Plugin_def)

subsection \<open>getRoutes, and getBroadcast of RegistryFactory\<close>

text \<open>
  C7. For maps with strictly ascending keys, \<open>getRoutes\<close> returns one entry per item of
  the registry, in the order of the items,
  whose key is the item's name and whose value is what the item's \<open>routeInfo\<close> returns:
  the keys are the registry's \<open>names\<close>, the length is its \<open>count\<close>, a name that does
  not exist has no entry, and after \<open>remove\<close> of a name the routes have no entry for it.
  \<open>getBroadcast\<close> returns one entry per registry, keyed by the registry's name, which is
  that registry's \<open>getRoutes\<close>. (The header has no function that removes a registry.)
\<close>

theorem getRoutes_one_entry_per_item:
  "(map_ok (m_items c) \<longrightarrow>
      fst (RegistryCore_getRoutes c) =
        map (\<lambda>e. (fst e, fst (Plugin_routeInfo (snd e)))) (m_items c) \<and>
      map fst (fst (RegistryCore_getRoutes c)) = RegistryCore_names c \<and>
      length (fst (RegistryCore_getRoutes c)) = RegistryCore_count c \<and>
      (\<forall>k p. map_of (m_items c) k = Some p \<longrightarrow>
         map_of (fst (RegistryCore_getRoutes c)) k = Some (fst (Plugin_routeInfo p))) \<and>
      (\<forall>k. \<not> RegistryCore_exists c k \<longrightarrow> map_of (fst (RegistryCore_getRoutes c)) k = None) \<and>
      map_of (fst (RegistryCore_getRoutes (fst (RegistryCore_remove c item_name)))) item_name = None) \<and>
   (map_ok cs \<and> m_registries d = map (\<lambda>e. (fst e, Some (snd e))) cs \<longrightarrow>
      RegistryFactory_getBroadcast d =
        Returned
          (map (\<lambda>e. (fst e, fst (RegistryCore_getRoutes (snd e)))) cs,
           d\<lparr>m_registries :=
               map (\<lambda>e. (fst e, Some (fst (snd (RegistryCore_getRoutes (snd e)))))) cs\<rparr>,
           concat (map (\<lambda>e. snd (snd (RegistryCore_getRoutes (snd e)))) cs)))"
proof -
  have one: "fst (RegistryCore_getRoutes c) =
        map (\<lambda>e. (fst e, fst (Plugin_routeInfo (snd e)))) (m_items c)"
    if "map_ok (m_items c)" for c :: "'a RegistryCore"
    using that by (simp add: RegistryCore_getRoutes_eq)
  have look: "map_of (map (\<lambda>e. (fst e, fst (Plugin_routeInfo (snd e)))) its) k =
      map_option (\<lambda>p. fst (Plugin_routeInfo p)) (map_of its k)"
    for its :: "(string \<times> 'a Plugin) list" and k
    by (induction its) auto
  have removed: "map_ok (m_items (fst (RegistryCore_remove c item_name))) \<and>
      map_of (m_items (fst (RegistryCore_remove c item_name))) item_name = None"
    if "map_ok (m_items c)"
    using that
    by (auto simp: RegistryCore_remove_def map_erase_store_through map_ok_map_erase
        map_of_map_erase split: option.splits)
  have part1: "map_ok (m_items c) \<longrightarrow>
      fst (RegistryCore_getRoutes c) =
        map (\<lambda>e. (fst e, fst (Plugin_routeInfo (snd e)))) (m_items c) \<and>
      map fst (fst (RegistryCore_getRoutes c)) = RegistryCore_names c \<and>
      length (fst (RegistryCore_getRoutes c)) = RegistryCore_count c \<and>
      (\<forall>k p. map_of (m_items c) k = Some p \<longrightarrow>
         map_of (fst (RegistryCore_getRoutes c)) k = Some (fst (Plugin_routeInfo p))) \<and>
      (\<forall>k. \<not> RegistryCore_exists c k \<longrightarrow> map_of (fst (RegistryCore_getRoutes c)) k = None) \<and>
      map_of (fst (RegistryCore_getRoutes (fst (RegistryCore_remove c item_name)))) item_name = None"
  proof
    assume ok: "map_ok (m_items c)"
    note r = removed [OF ok]
    show "fst (RegistryCore_getRoutes c) =
        map (\<lambda>e. (fst e, fst (Plugin_routeInfo (snd e)))) (m_items c) \<and>
      map fst (fst (RegistryCore_getRoutes c)) = RegistryCore_names c \<and>
      length (fst (RegistryCore_getRoutes c)) = RegistryCore_count c \<and>
      (\<forall>k p. map_of (m_items c) k = Some p \<longrightarrow>
         map_of (fst (RegistryCore_getRoutes c)) k = Some (fst (Plugin_routeInfo p))) \<and>
      (\<forall>k. \<not> RegistryCore_exists c k \<longrightarrow> map_of (fst (RegistryCore_getRoutes c)) k = None) \<and>
      map_of (fst (RegistryCore_getRoutes (fst (RegistryCore_remove c item_name)))) item_name = None"
      using r
      by (simp add: one [OF ok] one [OF conjunct1 [OF r]] look RegistryCore_names_def
          RegistryCore_count_def map_size_def RegistryCore_exists_def map_count_pos comp_def)
  qed
  have part2: "map_ok cs \<and> m_registries d = map (\<lambda>e. (fst e, Some (snd e))) cs \<longrightarrow>
      RegistryFactory_getBroadcast d =
        Returned
          (map (\<lambda>e. (fst e, fst (RegistryCore_getRoutes (snd e)))) cs,
           d\<lparr>m_registries :=
               map (\<lambda>e. (fst e, Some (fst (snd (RegistryCore_getRoutes (snd e)))))) cs\<rparr>,
           concat (map (\<lambda>e. snd (snd (RegistryCore_getRoutes (snd e)))) cs))"
    by (auto simp: RegistryFactory_getBroadcast_eq)
  from part1 part2 show ?thesis by (rule conjI)
qed


theorem getRoutes_one_entry_per_item_witness:
  "map_ok (m_items greeter) \<and>
   fst (RegistryCore_getRoutes greeter) = [(''broken'', []), (''hello'', [(''kind'', ''greeting'')])] \<and>
   map_of (fst (RegistryCore_getRoutes (fst (RegistryCore_remove greeter ''broken'')))) ''broken'' = None \<and>
   map_ok [(''greeter'', greeter)] \<and>
   m_registries greeter_directory = map (\<lambda>e. (fst e, Some (snd e))) [(''greeter'', greeter)] \<and>
   RegistryFactory_getBroadcast greeter_directory =
     Returned ([(''greeter'', [(''broken'', []), (''hello'', [(''kind'', ''greeting'')])])],
               greeter_directory, [(''broken'', RouteInfo), (''hello'', RouteInfo)])"
proof -
  have its: "m_items greeter = [(''broken'', Plugin_setName broken_item ''broken''),
                  (''hello'', Plugin_setName hello_item ''hello'')]"
    by (simp add: greeter_def)
  have rb: "Plugin_routeInfo (Plugin_setName broken_item ''broken'') =
      ([], Plugin_setName broken_item ''broken'')"
    by (simp add: Plugin_routeInfo_def Plugin_setName_def broken_item_def Plugin_def)
  have rh: "Plugin_routeInfo (Plugin_setName hello_item ''hello'') =
      ([(''kind'', ''greeting'')], Plugin_setName hello_item ''hello'')"
    by (simp add: Plugin_routeInfo_def Plugin_setName_def hello_item_def Plugin_def)
  have m2: "map_ok [(''greeter'', greeter)]"
    by (simp add: map_ok_def)
  have regs: "m_registries greeter_directory =
      map (\<lambda>e. (fst e, Some (snd e))) [(''greeter'', greeter)]"
    by (simp add: greeter_directory_def)
  note t = getRoutes_one_entry_per_item
    [of greeter "''broken''" "[(''greeter'', greeter)]" greeter_directory]
  from t greeter_map_ok
  have routes: "fst (RegistryCore_getRoutes greeter) =
      [(''broken'', []), (''hello'', [(''kind'', ''greeting'')])]"
    by (simp add: its rb rh)
  from t greeter_map_ok
  have gone: "map_of (fst (RegistryCore_getRoutes (fst (RegistryCore_remove greeter ''broken''))))
      ''broken'' = None"
    by simp
  have same: "RegistryCore_getRoutes greeter =
      ([(''broken'', []), (''hello'', [(''kind'', ''greeting'')])], greeter,
       [(''broken'', RouteInfo), (''hello'', RouteInfo)])"
    by (simp add: RegistryCore_getRoutes_eq [OF greeter_map_ok] its rb rh)
  from t m2 regs
  have bc: "RegistryFactory_getBroadcast greeter_directory =
     Returned ([(''greeter'', [(''broken'', []), (''hello'', [(''kind'', ''greeting'')])])],
               greeter_directory, [(''broken'', RouteInfo), (''hello'', RouteInfo)])"
    by (simp add: same)
  from greeter_map_ok routes gone m2 regs bc show ?thesis by blast
qed

section \<open>RegistryFactory\<close>

subsection \<open>call\<close>

text \<open>
  The messages of the two not-found results differ for every registry and item name: the
  first has a colon where the second has a space.
\<close>

lemma Status_messages_differ:
  "''Cannot call '' @ registry_name @ '':'' @ item_name \<noteq> ''Cannot call registry item: '' @ item_name"
proof
  assume "''Cannot call '' @ registry_name @ '':'' @ item_name =
          ''Cannot call registry item: '' @ item_name"
  then have "(registry_name @ '':'') @ item_name = ''registry item: '' @ item_name"
    by simp
  then have "registry_name @ '':'' = ''registry item: ''"
    by (simp only: same_append_eq append_same_eq)
  then have "last (registry_name @ '':'') = last ''registry item: ''"
    by (rule arg_cong)
  then show False by simp
qed

text \<open>
  C4. The four-argument \<open>call\<close> returns the failure status
  \<open>Cannot call <registry>:<item>\<close> when the registry name is not in the directory, and
  the failure status \<open>Cannot call registry item: <item>\<close> when the registry is there and
  the item name is not in it. In both cases no virtual method of any plugin is called and
  the directory is as it was. When both are there it returns what the item's \<open>call\<close>
  returns, status and response, after that one call. Both failures carry code 1; the
  message tells them apart.
\<close>

theorem RegistryFactory_call_dispatch:
  "(map_count (m_registries d) registry_name = 0 \<longrightarrow>
      RegistryFactory_call d registry_name item_name request response =
        Returned ((Status 1 (''Cannot call '' @ registry_name @ '':'' @ item_name), response),
                  d, [])) \<and>
   (\<forall>c. map_of (m_registries d) registry_name = Some (Some c) \<and>
        \<not> RegistryCore_exists c item_name \<longrightarrow>
      RegistryFactory_call d registry_name item_name request response =
        Returned ((Status 1 (''Cannot call registry item: '' @ item_name), response), d, [])) \<and>
   (\<forall>c p. map_of (m_registries d) registry_name = Some (Some c) \<and>
        map_of (m_items c) item_name = Some p \<longrightarrow>
      RegistryFactory_call d registry_name item_name request response =
        Returned
          (fst (Plugin_call p request response),
           d\<lparr>m_registries := store_through (m_registries d) registry_name
              (Some (c\<lparr>m_items := store_through (m_items c) item_name
                                  (snd (Plugin_call p request response))\<rparr>))\<rparr>,
           [(item_name, Call)])) \<and>
   \<not> ok (Status 1 (''Cannot call '' @ registry_name @ '':'' @ item_name)) \<and>
   \<not> ok (Status 1 (''Cannot call registry item: '' @ item_name)) \<and>
   Status 1 (''Cannot call '' @ registry_name @ '':'' @ item_name) \<noteq>
     Status 1 (''Cannot call registry item: '' @ item_name)"
  by (auto simp add: RegistryFactory_call_def RegistryCore_call_def RegistryCore_exists_def
      map_count_zero map_count_pos store_through_same ok_def case_prod_beta
      Status_messages_differ simp del: append.simps)

theorem RegistryFactory_call_dispatch_witness:
  "map_count (m_registries greeter_directory) ''nope'' = 0 \<and>
   RegistryFactory_call greeter_directory ''nope'' ''hello'' [] [] =
     Returned ((Status 1 ''Cannot call nope:hello'', []), greeter_directory, []) \<and>
   map_of (m_registries greeter_directory) ''greeter'' = Some (Some greeter) \<and>
   \<not> RegistryCore_exists greeter ''missing'' \<and>
   RegistryFactory_call greeter_directory ''greeter'' ''missing'' [] [] =
     Returned ((Status 1 ''Cannot call registry item: missing'', []), greeter_directory, []) \<and>
   map_of (m_items greeter) ''hello'' = Some (Plugin_setName hello_item ''hello'') \<and>
   RegistryFactory_call greeter_directory ''greeter'' ''hello'' [(''name'', ''alice'')] [] =
     Returned ((Status 0 ''OK'', [[(''msg'', ''alice'')]]), greeter_directory,
               [(''hello'', Call)])"
proof -
  have absent: "map_count (m_registries greeter_directory) ''nope'' = 0"
    by (simp add: map_count_def greeter_directory_def)
  have missing: "\<not> RegistryCore_exists greeter ''missing''"
    by (simp add: RegistryCore_exists_def map_count_def greeter_lookup_missing)
  from RegistryFactory_call_dispatch [of greeter_directory "''nope''" "''hello''" "[]" "[]"] absent
  have c1: "RegistryFactory_call greeter_directory ''nope'' ''hello'' [] [] =
     Returned ((Status 1 ''Cannot call nope:hello'', []), greeter_directory, [])"
    by simp
  from RegistryFactory_call_dispatch [of greeter_directory "''greeter''" "''missing''" "[]" "[]"]
    greeter_directory_lookup missing
  have c2: "RegistryFactory_call greeter_directory ''greeter'' ''missing'' [] [] =
     Returned ((Status 1 ''Cannot call registry item: missing'', []), greeter_directory, [])"
    by simp
  have restored: "store_through (m_registries greeter_directory) ''greeter''
      (Some (greeter\<lparr>m_items := store_through (m_items greeter) ''hello''
                                   (Plugin_setName hello_item ''hello'')\<rparr>)) =
      m_registries greeter_directory"
    by (simp add: greeter_directory_def greeter_def)
  from RegistryFactory_call_dispatch
    [of greeter_directory "''greeter''" "''hello''" "[(''name'', ''alice'')]" "[]"]
    greeter_directory_lookup greeter_lookup_hello
  have c3: "RegistryFactory_call greeter_directory ''greeter'' ''hello'' [(''name'', ''alice'')] [] =
     Returned ((Status 0 ''OK'', [[(''msg'', ''alice'')]]), greeter_directory,
               [(''hello'', Call)])"
    by (simp add: hello_call restored)
  from absent c1 greeter_directory_lookup missing c2 greeter_lookup_hello c3
  show ?thesis by blast
qed

text \<open>
  C10. When \<open>call\<close> fails because the registry or the item is not found, the response it
  hands back is the response it was given.
\<close>

theorem RegistryFactory_call_failure_response:
  "map_count (m_registries d) registry_name = 0 \<or>
   (\<exists>c. map_of (m_registries d) registry_name = Some (Some c) \<and>
        \<not> RegistryCore_exists c item_name) \<Longrightarrow>
   \<exists>st. \<not> ok st \<and>
     RegistryFactory_call d registry_name item_name request response =
       Returned ((st, response), d, [])"
  by (auto simp add: RegistryFactory_call_def RegistryCore_call_def RegistryCore_exists_def
      map_count_zero map_count_pos store_through_same ok_def)

theorem RegistryFactory_call_failure_response_witness:
  "map_count (m_registries greeter_directory) ''nope'' = 0 \<and>
   RegistryFactory_call greeter_directory ''nope'' ''hello'' [] [[(''kept'', ''row'')]] =
     Returned ((Status 1 ''Cannot call nope:hello'', [[(''kept'', ''row'')]]),
               greeter_directory, []) \<and>
   map_of (m_registries greeter_directory) ''greeter'' = Some (Some greeter) \<and>
   \<not> RegistryCore_exists greeter ''missing'' \<and>
   RegistryFactory_call greeter_directory ''greeter'' ''missing'' [] [[(''kept'', ''row'')]] =
     Returned ((Status 1 ''Cannot call registry item: missing'', [[(''kept'', ''row'')]]),
               greeter_directory, [])"
proof -
  have absent: "map_count (m_registries greeter_directory) ''nope'' = 0"
    by (simp add: map_count_def greeter_directory_def)
  have missing: "\<not> RegistryCore_exists greeter ''missing''"
    by (simp add: RegistryCore_exists_def map_count_def greeter_lookup_missing)
  from absent
  have "\<exists>st. \<not> ok st \<and>
     RegistryFactory_call greeter_directory ''nope'' ''hello'' [] [[(''kept'', ''row'')]] =
       Returned ((st, [[(''kept'', ''row'')]]), greeter_directory, [])"
    by (intro RegistryFactory_call_failure_response disjI1)
  then have c1: "RegistryFactory_call greeter_directory ''nope'' ''hello'' [] [[(''kept'', ''row'')]] =
     Returned ((Status 1 ''Cannot call nope:hello'', [[(''kept'', ''row'')]]),
               greeter_directory, [])"
    by (auto simp: RegistryFactory_call_def greeter_directory_def)
  from greeter_directory_lookup missing
  have "\<exists>st. \<not> ok st \<and>
     RegistryFactory_call greeter_directory ''greeter'' ''missing'' [] [[(''kept'', ''row'')]] =
       Returned ((st, [[(''kept'', ''row'')]]), greeter_directory, [])"
    by (intro RegistryFactory_call_failure_response disjI2 exI [of _ greeter] conjI)
  then have c2: "RegistryFactory_call greeter_directory ''greeter'' ''missing'' []
       [[(''kept'', ''row'')]] =
     Returned ((Status 1 ''Cannot call registry item: missing'', [[(''kept'', ''row'')]]),
               greeter_directory, [])"
    by (auto simp: RegistryFactory_call_def RegistryCore_call_def greeter_directory_lookup
        greeter_lookup_missing)
  from absent c1 greeter_directory_lookup missing c2 show ?thesis by blast
qed

subsection \<open>add\<close>

text \<open>
  C2, as the header has it. \<open>RegistryFactory::add\<close> resolves the registry with
  \<open>registry(registry_name)\<close>, that is \<open>registries_.at(registry_name)\<close>: for a registry
  name that is not in the directory it raises \<open>std::out_of_range\<close>; for a registry that is
  there it returns the status of that registry's \<open>add\<close>, and the directory holds the
  registry that \<open>add\<close> leaves.
\<close>

theorem RegistryFactory_add_raises:
  "(map_count (m_registries d) registry_name = 0 \<longrightarrow>
      RegistryFactory_add d new_Item registry_name item_name = Raised out_of_range) \<and>
   (\<forall>c. map_of (m_registries d) registry_name = Some (Some c) \<longrightarrow>
      RegistryFactory_add d new_Item registry_name item_name =
        Returned
          (fst (RegistryCore_add c new_Item item_name),
           d\<lparr>m_registries := store_through (m_registries d) registry_name
              (Some (snd (RegistryCore_add c new_Item item_name)))\<rparr>))"
  by (simp add: RegistryFactory_add_def RegistryFactory_registry_def map_at_def map_count_zero
      case_prod_beta)

theorem RegistryFactory_add_raises_witness:
  "map_count (m_registries greeter_directory) ''table'' = 0 \<and>
   RegistryFactory_add greeter_directory hello_item ''table'' ''hello'' = Raised out_of_range \<and>
   map_of (m_registries greeter_directory) ''greeter'' = Some (Some greeter) \<and>
   RegistryFactory_add greeter_directory broken_item ''greeter'' ''hello'' =
     Returned (Status 1 ''Duplicate registry item exists: hello'', greeter_directory)"
proof -
  have absent: "map_count (m_registries greeter_directory) ''table'' = 0"
    by (simp add: map_count_def greeter_directory_def)
  from RegistryFactory_add_raises [of greeter_directory "''table''" hello_item "''hello''"] absent
  have c1: "RegistryFactory_add greeter_directory hello_item ''table'' ''hello'' =
      Raised out_of_range"
    by simp
  have dup: "RegistryCore_add greeter broken_item ''hello'' =
      (Status 1 ''Duplicate registry item exists: hello'', greeter)"
    by (simp add: RegistryCore_add_def map_count_def greeter_lookup_hello)
  from RegistryFactory_add_raises [of greeter_directory "''greeter''" broken_item "''hello''"]
    greeter_directory_lookup
  have c2: "RegistryFactory_add greeter_directory broken_item ''greeter'' ''hello'' =
     Returned (Status 1 ''Duplicate registry item exists: hello'', greeter_directory)"
    by (simp add: dup) (simp add: greeter_directory_def)
  from absent c1 greeter_directory_lookup c2 show ?thesis by blast
qed

text \<open>
  C2 as the specification words it asks for a returned RegistryNotFound result. On the
  example directory the registry \<open>logger\<close> is absent and \<open>add\<close> raises.
\<close>

theorem RegistryFactory_add_counterexample:
  "map_count (m_registries greeter_directory) ''logger'' = 0 \<and>
   RegistryFactory_add greeter_directory hello_item ''logger'' ''stdout'' = Raised out_of_range"
  by (simp add: RegistryFactory_add_def RegistryFactory_registry_def map_at_def map_count_def
      greeter_directory_def)

subsection \<open>names\<close>

text \<open>
  C9. For a registry name that is not in the directory \<open>names(registry_name)\<close> raises
  \<open>std::out_of_range\<close>, from the \<open>at\<close> inside its guard; for a registry that is there
  it returns that registry's item names. The guard holds for an empty pointer only, and
  \<open>create\<close>, the one function that stores a pointer, stores none: each entry after
  \<open>create\<close> was there before or is the new name with a registry. So in a directory
  without empty pointers an empty result never comes from the guard, only from a registry
  that has no items.
\<close>

theorem RegistryFactory_names_raises:
  "(map_count (m_registries d) registry_name = 0 \<longrightarrow>
      RegistryFactory_names d registry_name = Raised out_of_range) \<and>
   (\<forall>c. map_of (m_registries d) registry_name = Some (Some c) \<longrightarrow>
      RegistryFactory_names d registry_name = Returned (RegistryCore_names c)) \<and>
   (\<forall>e \<in> set (m_registries (snd (RegistryFactory_create d new_name auto_setup))).
      e \<in> set (m_registries d) \<or> (\<exists>c. e = (new_name, Some c))) \<and>
   ((\<forall>e \<in> set (m_registries d). snd e \<noteq> None) \<and>
      RegistryFactory_names d registry_name = Returned [] \<longrightarrow>
      (\<exists>c. map_of (m_registries d) registry_name = Some (Some c) \<and> m_items c = []))"
proof -
  have absent: "map_count (m_registries d) registry_name = 0 \<longrightarrow>
      RegistryFactory_names d registry_name = Raised out_of_range"
    by (simp add: RegistryFactory_names_def map_at_def map_count_zero)
  have present: "\<forall>c. map_of (m_registries d) registry_name = Some (Some c) \<longrightarrow>
      RegistryFactory_names d registry_name = Returned (RegistryCore_names c)"
    by (simp add: RegistryFactory_names_def RegistryFactory_registry_def map_at_def)
  have stored: "\<forall>e \<in> set (m_registries (snd (RegistryFactory_create d new_name auto_setup))).
      e \<in> set (m_registries d) \<or> (\<exists>c. e = (new_name, Some c))"
  proof (cases "map_count (m_registries d) new_name > 0")
    case True
    then show ?thesis by (simp add: RegistryFactory_create_def)
  next
    case False
    let ?h = "Some (RegistryCore_setName (RegistryCore auto_setup) new_name)"
    have "set (map_assign (m_registries d) new_name ?h) \<subseteq>
        insert (new_name, ?h) (set (m_registries d))"
      by (rule set_map_assign)
    with False show ?thesis
      by (auto simp: RegistryFactory_create_def Let_def)
  qed
  have guard: "(\<forall>e \<in> set (m_registries d). snd e \<noteq> None) \<and>
      RegistryFactory_names d registry_name = Returned [] \<longrightarrow>
      (\<exists>c. map_of (m_registries d) registry_name = Some (Some c) \<and> m_items c = [])"
  proof
    assume a: "(\<forall>e \<in> set (m_registries d). snd e \<noteq> None) \<and>
      RegistryFactory_names d registry_name = Returned []"
    show "\<exists>c. map_of (m_registries d) registry_name = Some (Some c) \<and> m_items c = []"
    proof (cases "map_of (m_registries d) registry_name")
      case None
      with a show ?thesis
        by (simp add: RegistryFactory_names_def map_at_def)
    next
      case (Some h)
      then have "(registry_name, h) \<in> set (m_registries d)"
        by (rule map_of_SomeD)
      with a obtain c where h: "h = Some c" by force
      with a Some show ?thesis
        by (simp add: RegistryFactory_names_def RegistryFactory_registry_def map_at_def
            RegistryCore_names_def)
    qed
  qed
  from absent present stored guard show ?thesis by blast
qed


theorem RegistryFactory_names_raises_witness:
  "map_count (m_registries greeter_directory) ''nope'' = 0 \<and>
   RegistryFactory_names greeter_directory ''nope'' = Raised out_of_range \<and>
   map_of (m_registries greeter_directory) ''greeter'' = Some (Some greeter) \<and>
   RegistryFactory_names greeter_directory ''greeter'' = Returned [''broken'', ''hello''] \<and>
   m_registries (snd (RegistryFactory_create greeter_directory ''config'' True)) =
     [(''config'', Some \<lparr>m_registry_name = ''config'', m_items = [], m_auto_setup = True\<rparr>),
      (''greeter'', Some greeter)] \<and>
   RegistryFactory_names (snd (RegistryFactory_create greeter_directory ''config'' True)) ''config'' =
     Returned [] \<and>
   (\<exists>c. map_of (m_registries (snd (RegistryFactory_create greeter_directory ''config'' True)))
          ''config'' = Some (Some c) \<and> m_items c = [])"
proof -
  let ?d = "snd (RegistryFactory_create greeter_directory ''config'' True)"
  have absent: "map_count (m_registries greeter_directory) ''nope'' = 0"
    by (simp add: map_count_def greeter_directory_def)
  from RegistryFactory_names_raises [of greeter_directory "''nope''"] absent
  have c1: "RegistryFactory_names greeter_directory ''nope'' = Raised out_of_range"
    by simp
  from RegistryFactory_names_raises [of greeter_directory "''greeter''"] greeter_directory_lookup
  have c2: "RegistryFactory_names greeter_directory ''greeter'' = Returned [''broken'', ''hello'']"
    by (simp add: RegistryCore_names_def greeter_def)
  have old: "\<forall>e \<in> set (m_registries greeter_directory). snd e \<noteq> None"
    by (simp add: greeter_directory_def)
  from RegistryFactory_names_raises [of greeter_directory _ "''config''" True] old
  have nn: "\<forall>e \<in> set (m_registries ?d). snd e \<noteq> None"
    by fastforce
  have empty: "RegistryFactory_names ?d ''config'' = Returned []"
    by (simp add: RegistryFactory_names_def RegistryFactory_registry_def RegistryFactory_create_def
        RegistryCore_names_def RegistryCore_setName_def RegistryCore_def map_at_def map_count_def
        greeter_directory_def)
  from RegistryFactory_names_raises [of ?d "''config''"] nn empty
  have c3: "\<exists>c. map_of (m_registries ?d) ''config'' = Some (Some c) \<and> m_items c = []"
    by blast
  have regs: "m_registries ?d =
     [(''config'', Some \<lparr>m_registry_name = ''config'', m_items = [], m_auto_setup = True\<rparr>),
      (''greeter'', Some greeter)]"
    by (simp add: RegistryFactory_create_def RegistryCore_setName_def RegistryCore_def
        map_count_def greeter_directory_def)
  from absent c1 greeter_directory_lookup c2 regs empty c3 show ?thesis by blast
qed

end
